theory Spec2Isabelle
  imports Main
begin

section \<open>Errors and the standard library's combinator\<close>

text \<open>
  A Go \<open>error\<close> is an interface value: \<open>None\<close> is the nil error, \<open>Some e\<close> a failure.
  A failure is a value of the caller's own, of a type without the method
  \<open>Unwrap() []error\<close> (\<open>Failure\<close>) or with it (\<open>multiFailure\<close>, with the errors it
  unwraps to), or the \<open>*joinError\<close> of the standard library, which holds the errors it
  wraps and has that method.
\<close>

datatype 'e error =
    Failure 'e
  | multiFailure 'e "'e error list"
  | joinError "'e error list"

fun unwrapsMany :: "'e error \<Rightarrow> bool" where
  "unwrapsMany (Failure x) = False"
| "unwrapsMany (multiFailure x errs) = True"
| "unwrapsMany (joinError errs) = True"

text \<open>
  \<open>errors.Join\<close> belongs to the Go standard library (package \<open>errors\<close>, file \<open>join.go\<close>),
  not to this repository. It is modelled after the standard library as of Go 1.25:
  nil values are discarded; the result is nil when none remains; a single remaining
  error that has the method \<open>Unwrap() []error\<close> is returned as it is; otherwise the
  result is a \<open>*joinError\<close> holding the remaining errors in their order, also when only
  one remains. (Before Go 1.25 a single remaining error was wrapped in every case.)
\<close>

fun nonNilErrors :: "'e error option list \<Rightarrow> 'e error list" where
  "nonNilErrors [] = []"
| "nonNilErrors (None # errs) = nonNilErrors errs"
| "nonNilErrors (Some err # errs) = err # nonNilErrors errs"

definition errors_Join :: "'e error option list \<Rightarrow> 'e error option" where
  "errors_Join errs =
     (let n = length (nonNilErrors errs) in
      if n = 0 then None
      else if n = 1 \<and> unwrapsMany (nonNilErrors errs ! 0) then Some (nonNilErrors errs ! 0)
      else Some (joinError (nonNilErrors errs)))"

text \<open>Calling a method on a nil interface value panics.\<close>

datatype panic = NilDereference

section \<open>The synchronous flavour (validation.go)\<close>

text \<open>
  A raw check function \<open>func(T) error\<close> may have effects: it takes the state of the
  world and returns its result with the new state. A function value may be nil, so a
  function-typed variable is an \<open>option\<close>.
\<close>

type_synonym ('t, 's, 'e) check = "'t \<Rightarrow> 's \<Rightarrow> 'e error option \<times> 's"

text \<open>
  A value of the interface type \<open>Validator[T]\<close>: the nil interface, or one of the
  implementations: \<open>Func[T]\<close> (whose function may be nil), the struct
  \<open>multiValidator[T]\<close>, a pointer \<open>*multiValidator[T]\<close> (what \<open>Join\<close> returns; the
  struct is never mutated after construction, so the pointer is modelled by the
  members it points to), \<open>noOpValidator[T]\<close>, or a type of the caller's own.
\<close>

datatype ('t, 's, 'e) Validator =
    NilValidator
  | Func "('t, 's, 'e) check option"
  | multiValidator "('t, 's, 'e) Validator list"
  | multiValidatorPtr "('t, 's, 'e) Validator list"
  | noOpValidator
  | Impl "('t, 's, 'e) check"

fun Validate :: "('t, 's, 'e) Validator \<Rightarrow> 't \<Rightarrow> 's \<Rightarrow> panic + ('e error option \<times> 's)"
and multiValidator_loop ::
  "('t, 's, 'e) Validator list \<Rightarrow> 't \<Rightarrow> 'e error option list \<Rightarrow> 's
     \<Rightarrow> panic + ('e error option list \<times> 's)"
where
  "Validate NilValidator val s = Inl NilDereference"
| "Validate (Func None) val s = Inr (None, s)"
| "Validate (Func (Some fn)) val s = Inr (fn val s)"
| "Validate (multiValidator validators) val s =
     (case multiValidator_loop validators val [] s of
        Inl p \<Rightarrow> Inl p
      | Inr (errs, s') \<Rightarrow> Inr (errors_Join errs, s'))"
| "Validate (multiValidatorPtr validators) val s =
     (case multiValidator_loop validators val [] s of
        Inl p \<Rightarrow> Inl p
      | Inr (errs, s') \<Rightarrow> Inr (errors_Join errs, s'))"
| "Validate noOpValidator val s = Inr (None, s)"
| "Validate (Impl f) val s = Inr (f val s)"
| "multiValidator_loop [] val errs s = Inr (errs, s)"
| "multiValidator_loop (v # vs) val errs s =
     (case Validate v val s of
        Inl p \<Rightarrow> Inl p
      | Inr (err, s') \<Rightarrow>
          multiValidator_loop vs val (if err \<noteq> None then errs @ [err] else errs) s')"

fun nonNilFunc_loop :: "'f option list \<Rightarrow> 'f option list \<Rightarrow> 'f option list" where
  "nonNilFunc_loop [] squash = squash"
| "nonNilFunc_loop (None # validators) squash = nonNilFunc_loop validators squash"
| "nonNilFunc_loop (Some f # validators) squash =
     nonNilFunc_loop validators (squash @ [Some f])"

definition nonNilFunc :: "'f option list \<Rightarrow> 'f option list" where
  "nonNilFunc validators = nonNilFunc_loop validators []"

fun nonNilValidators_loop ::
  "('t, 's, 'e) Validator list \<Rightarrow> ('t, 's, 'e) Validator list \<Rightarrow> ('t, 's, 'e) Validator list"
where
  "nonNilValidators_loop [] squash = squash"
| "nonNilValidators_loop (NilValidator # validators) squash =
     nonNilValidators_loop validators squash"
| "nonNilValidators_loop (v # validators) squash =
     nonNilValidators_loop validators (squash @ [v])"

definition nonNilValidators :: "('t, 's, 'e) Validator list \<Rightarrow> ('t, 's, 'e) Validator list" where
  "nonNilValidators validators = nonNilValidators_loop validators []"

definition NoOp :: "('t, 's, 'e) Validator" where
  "NoOp = noOpValidator"

fun New_loop ::
  "('t, 's, 'e) check option list \<Rightarrow> ('t, 's, 'e) Validator list \<Rightarrow> ('t, 's, 'e) Validator list"
where
  "New_loop [] mv = mv"
| "New_loop (f # validators) mv = New_loop validators (mv @ [Func f])"

definition New :: "('t, 's, 'e) check option list \<Rightarrow> ('t, 's, 'e) Validator" where
  "New validators0 =
     (let validators = nonNilFunc validators0 in
      if length validators = 0 then NoOp
      else if length validators = 1 then Func (validators ! 0)
      else multiValidator (New_loop validators []))"

fun Join_loop ::
  "('t, 's, 'e) Validator list \<Rightarrow> ('t, 's, 'e) Validator list \<Rightarrow> ('t, 's, 'e) Validator list"
where
  "Join_loop [] mv = mv"
| "Join_loop (multiValidator members # validators) mv = Join_loop validators (mv @ members)"
| "Join_loop (v # validators) mv = Join_loop validators (mv @ [v])"

definition Join :: "('t, 's, 'e) Validator list \<Rightarrow> ('t, 's, 'e) Validator" where
  "Join validators0 =
     (let validators = nonNilValidators validators0 in
      if length validators = 0 then NoOp
      else if length validators = 1 then validators ! 0
      else multiValidatorPtr (Join_loop validators []))"

section \<open>The cancellable flavour (src/unnamed/part_001, tested by validation_context_test.go)\<close>

text \<open>
  The same algebra with a \<open>context.Context\<close> passed to every check. \<open>JoinContext\<close>
  returns the struct \<open>multiContextValidator[T]\<close> itself, never a pointer to one, so the
  interface type has no pointer case here.
\<close>

type_synonym ('c, 't, 's, 'e) ctx_check = "'c \<Rightarrow> 't \<Rightarrow> 's \<Rightarrow> 'e error option \<times> 's"

datatype ('c, 't, 's, 'e) ContextValidator =
    NilContextValidator
  | ContextFunc "('c, 't, 's, 'e) ctx_check option"
  | multiContextValidator "('c, 't, 's, 'e) ContextValidator list"
  | noOpContextValidator
  | ContextImpl "('c, 't, 's, 'e) ctx_check"

fun ValidateContext ::
  "('c, 't, 's, 'e) ContextValidator \<Rightarrow> 'c \<Rightarrow> 't \<Rightarrow> 's \<Rightarrow> panic + ('e error option \<times> 's)"
and multiContextValidator_loop ::
  "('c, 't, 's, 'e) ContextValidator list \<Rightarrow> 'c \<Rightarrow> 't \<Rightarrow> 'e error option list \<Rightarrow> 's
     \<Rightarrow> panic + ('e error option list \<times> 's)"
where
  "ValidateContext NilContextValidator ctx val s = Inl NilDereference"
| "ValidateContext (ContextFunc None) ctx val s = Inr (None, s)"
| "ValidateContext (ContextFunc (Some fn)) ctx val s = Inr (fn ctx val s)"
| "ValidateContext (multiContextValidator validators) ctx val s =
     (case multiContextValidator_loop validators ctx val [] s of
        Inl p \<Rightarrow> Inl p
      | Inr (errs, s') \<Rightarrow> Inr (errors_Join errs, s'))"
| "ValidateContext noOpContextValidator ctx val s = Inr (None, s)"
| "ValidateContext (ContextImpl f) ctx val s = Inr (f ctx val s)"
| "multiContextValidator_loop [] ctx val errs s = Inr (errs, s)"
| "multiContextValidator_loop (v # vs) ctx val errs s =
     (case ValidateContext v ctx val s of
        Inl p \<Rightarrow> Inl p
      | Inr (err, s') \<Rightarrow>
          multiContextValidator_loop vs ctx val
            (if err \<noteq> None then errs @ [err] else errs) s')"

fun nonNilContextFunc_loop :: "'f option list \<Rightarrow> 'f option list \<Rightarrow> 'f option list" where
  "nonNilContextFunc_loop [] squash = squash"
| "nonNilContextFunc_loop (None # validators) squash =
     nonNilContextFunc_loop validators squash"
| "nonNilContextFunc_loop (Some f # validators) squash =
     nonNilContextFunc_loop validators (squash @ [Some f])"

definition nonNilContextFunc :: "'f option list \<Rightarrow> 'f option list" where
  "nonNilContextFunc validators = nonNilContextFunc_loop validators []"

fun nonNilContextValidator_loop ::
  "('c, 't, 's, 'e) ContextValidator list \<Rightarrow> ('c, 't, 's, 'e) ContextValidator list
     \<Rightarrow> ('c, 't, 's, 'e) ContextValidator list"
where
  "nonNilContextValidator_loop [] squash = squash"
| "nonNilContextValidator_loop (NilContextValidator # validators) squash =
     nonNilContextValidator_loop validators squash"
| "nonNilContextValidator_loop (v # validators) squash =
     nonNilContextValidator_loop validators (squash @ [v])"

definition nonNilContextValidator ::
  "('c, 't, 's, 'e) ContextValidator list \<Rightarrow> ('c, 't, 's, 'e) ContextValidator list"
where
  "nonNilContextValidator validators = nonNilContextValidator_loop validators []"

definition NoOpContext :: "('c, 't, 's, 'e) ContextValidator" where
  "NoOpContext = noOpContextValidator"

fun NewContext_loop ::
  "('c, 't, 's, 'e) ctx_check option list \<Rightarrow> ('c, 't, 's, 'e) ContextValidator list
     \<Rightarrow> ('c, 't, 's, 'e) ContextValidator list"
where
  "NewContext_loop [] mv = mv"
| "NewContext_loop (f # validators) mv = NewContext_loop validators (mv @ [ContextFunc f])"

definition NewContext ::
  "('c, 't, 's, 'e) ctx_check option list \<Rightarrow> ('c, 't, 's, 'e) ContextValidator"
where
  "NewContext validators0 =
     (let validators = nonNilContextFunc validators0 in
      if length validators = 0 then NoOpContext
      else if length validators = 1 then ContextFunc (validators ! 0)
      else multiContextValidator (NewContext_loop validators []))"

text \<open>The type switch of \<open>JoinContext\<close> has an explicit nil case that skips the element.\<close>

fun JoinContext_loop ::
  "('c, 't, 's, 'e) ContextValidator list \<Rightarrow> ('c, 't, 's, 'e) ContextValidator list
     \<Rightarrow> ('c, 't, 's, 'e) ContextValidator list"
where
  "JoinContext_loop [] mv = mv"
| "JoinContext_loop (NilContextValidator # validators) mv = JoinContext_loop validators mv"
| "JoinContext_loop (multiContextValidator members # validators) mv =
     JoinContext_loop validators (mv @ members)"
| "JoinContext_loop (v # validators) mv = JoinContext_loop validators (mv @ [v])"

definition JoinContext ::
  "('c, 't, 's, 'e) ContextValidator list \<Rightarrow> ('c, 't, 's, 'e) ContextValidator"
where
  "JoinContext validators0 =
     (let validators = nonNilContextValidator validators0 in
      if length validators = 0 then NoOpContext
      else if length validators = 1 then validators ! 0
      else multiContextValidator (JoinContext_loop validators []))"

section \<open>Notions used to state the properties\<close>

text \<open>
  A checker can be called without a panic when no nil interface value is reached:
  it is not nil itself, and neither is any member of an aggregate in it.
\<close>

fun callable :: "('t, 's, 'e) Validator \<Rightarrow> bool" where
  "callable NilValidator = False"
| "callable (multiValidator members) = (\<forall>m \<in> set members. callable m)"
| "callable (multiValidatorPtr members) = (\<forall>m \<in> set members. callable m)"
| "callable v = True"

fun ctx_callable :: "('c, 't, 's, 'e) ContextValidator \<Rightarrow> bool" where
  "ctx_callable NilContextValidator = False"
| "ctx_callable (multiContextValidator members) = (\<forall>m \<in> set members. ctx_callable m)"
| "ctx_callable v = True"

text \<open>
  A run of the members of an aggregate, each invoked once, in stored order, on the same
  input: \<open>ss\<close> lists the states between the calls (member \<open>i\<close> starts in \<open>ss ! i\<close> and
  leaves \<open>ss ! Suc i\<close>), \<open>rs\<close> lists what the members returned.
\<close>

definition invoked_in_order ::
  "('t, 's, 'e) Validator list \<Rightarrow> 't \<Rightarrow> 's list \<Rightarrow> 'e error option list \<Rightarrow> bool" where
  "invoked_in_order members val ss rs \<longleftrightarrow>
     length ss = Suc (length members) \<and> length rs = length members \<and>
     (\<forall>i < length members. Validate (members ! i) val (ss ! i) = Inr (rs ! i, ss ! Suc i))"

definition ctx_invoked_in_order ::
  "('c, 't, 's, 'e) ContextValidator list \<Rightarrow> 'c \<Rightarrow> 't \<Rightarrow> 's list \<Rightarrow> 'e error option list
     \<Rightarrow> bool" where
  "ctx_invoked_in_order members ctx val ss rs \<longleftrightarrow>
     length ss = Suc (length members) \<and> length rs = length members \<and>
     (\<forall>i < length members.
        ValidateContext (members ! i) ctx val (ss ! i) = Inr (rs ! i, ss ! Suc i))"

text \<open>
  What one surviving input contributes to the member list built by \<open>Join\<close> and by
  \<open>JoinContext\<close>: the members of a struct aggregate, the checker itself otherwise.
\<close>

fun spliced :: "('t, 's, 'e) Validator \<Rightarrow> ('t, 's, 'e) Validator list" where
  "spliced (multiValidator members) = members"
| "spliced v = [v]"

fun ctx_spliced :: "('c, 't, 's, 'e) ContextValidator \<Rightarrow> ('c, 't, 's, 'e) ContextValidator list" where
  "ctx_spliced NilContextValidator = []"
| "ctx_spliced (multiContextValidator members) = members"
| "ctx_spliced v = [v]"

text \<open>
  The aggregate types are unexported, so a client of the package holds only checkers
  that are nil, a \<open>Func\<close>, the no-op, a type of its own, or the result of a factory
  applied to such checkers.
\<close>

inductive constructible :: "('t, 's, 'e) Validator \<Rightarrow> bool" where
  c_nil: "constructible NilValidator"
| c_func: "constructible (Func f)"
| c_noop: "constructible NoOp"
| c_impl: "constructible (Impl g)"
| c_new: "constructible (New fs)"
| c_join: "(\<forall>v \<in> set vs. constructible v) \<Longrightarrow> constructible (Join vs)"

inductive ctx_constructible :: "('c, 't, 's, 'e) ContextValidator \<Rightarrow> bool" where
  cc_nil: "ctx_constructible NilContextValidator"
| cc_func: "ctx_constructible (ContextFunc f)"
| cc_noop: "ctx_constructible NoOpContext"
| cc_impl: "ctx_constructible (ContextImpl g)"
| cc_new: "ctx_constructible (NewContext fs)"
| cc_join: "(\<forall>v \<in> set vs. ctx_constructible v) \<Longrightarrow> ctx_constructible (JoinContext vs)"

text \<open>The members an aggregate holds; no members for any other checker.\<close>

fun members_of :: "('t, 's, 'e) Validator \<Rightarrow> ('t, 's, 'e) Validator list option" where
  "members_of (multiValidator members) = Some members"
| "members_of (multiValidatorPtr members) = Some members"
| "members_of v = None"

fun ctx_members_of ::
  "('c, 't, 's, 'e) ContextValidator \<Rightarrow> ('c, 't, 's, 'e) ContextValidator list option" where
  "ctx_members_of (multiContextValidator members) = Some members"
| "ctx_members_of v = None"

section \<open>Concrete checkers for the examples\<close>

text \<open>
  The state is a counter of calls, the input a number. \<open>fail_with k\<close> fails with the
  marker \<open>k\<close>, \<open>succeed\<close> returns nil, \<open>positive\<close> fails with marker 0 on the input 0;
  each counts its call.
\<close>

definition fail_with :: "nat \<Rightarrow> (nat, nat, nat) check" where
  "fail_with k val s = (Some (Failure k), Suc s)"

definition succeed :: "(nat, nat, nat) check" where
  "succeed val s = (None, Suc s)"

definition positive :: "(nat, nat, nat) check" where
  "positive val s = (if val = 0 then Some (Failure 0) else None, Suc s)"

definition ctx_fail_with :: "nat \<Rightarrow> (bool, nat, nat, nat) ctx_check" where
  "ctx_fail_with k ctx val s = (Some (Failure k), Suc s)"

definition ctx_succeed :: "(bool, nat, nat, nat) ctx_check" where
  "ctx_succeed ctx val s = (None, Suc s)"

text \<open>The context is modelled by whether it is cancelled; \<open>ctx_alive\<close> fails with marker 99 if so.\<close>

definition ctx_alive :: "(bool, nat, nat, nat) ctx_check" where
  "ctx_alive ctx val s = (if ctx then Some (Failure 99) else None, Suc s)"

definition leaf :: "nat \<Rightarrow> (nat, nat, nat) Validator" where
  "leaf k = Func (Some (fail_with k))"

definition ctx_leaf :: "nat \<Rightarrow> (bool, nat, nat, nat) ContextValidator" where
  "ctx_leaf k = ContextFunc (Some (ctx_fail_with k))"

definition testNoOp :: "(nat, nat, nat) Validator" where
  "testNoOp = Func (Some succeed)"

definition three_members :: "(nat, nat, nat) Validator list" where
  "three_members = [Func (Some (fail_with 1)), Func (Some succeed), Func (Some (fail_with 3))]"

definition ctx_three_members :: "(bool, nat, nat, nat) ContextValidator list" where
  "ctx_three_members =
     [ContextFunc (Some ctx_alive), ContextFunc (Some ctx_succeed), ContextFunc (Some (ctx_fail_with 3))]"

definition one_failing :: "(nat, nat, nat) Validator list" where
  "one_failing = [Func (Some succeed), Func (Some (fail_with 1))]"

definition ctx_one_failing :: "(bool, nat, nat, nat) ContextValidator list" where
  "ctx_one_failing = [ContextFunc (Some ctx_alive), ContextFunc (Some ctx_succeed)]"

text \<open>
  A check function that fails with an error joined from two failures, and aggregates
  with one failing member whose failure is such a composite: the nested aggregate that
  \<open>Join (Join (leaf 1, leaf 2), testNoOp)\<close> builds, and the members of
  \<open>NewContext (ctx_joined, ctx_succeed)\<close>.
\<close>

definition ctx_joined :: "(bool, nat, nat, nat) ctx_check" where
  "ctx_joined ctx val s = (Some (joinError [Failure 1, Failure 2]), Suc s)"

definition composite_failing :: "(nat, nat, nat) Validator list" where
  "composite_failing = [multiValidatorPtr [leaf 1, leaf 2], testNoOp]"

definition ctx_composite_failing :: "(bool, nat, nat, nat) ContextValidator list" where
  "ctx_composite_failing = [ContextFunc (Some ctx_joined), ContextFunc (Some ctx_succeed)]"

definition none_failing :: "(nat, nat, nat) Validator list" where
  "none_failing = [Func (Some succeed), noOpValidator, Func (Some positive)]"

definition ctx_none_failing :: "(bool, nat, nat, nat) ContextValidator list" where
  "ctx_none_failing = [ContextFunc (Some ctx_alive), ContextFunc (Some ctx_succeed)]"

section \<open>The loops as list functions\<close>

lemma nonNilFunc_loop_filter:
  "nonNilFunc_loop vs squash = squash @ filter (\<lambda>v. v \<noteq> None) vs"
  by (induction vs squash rule: nonNilFunc_loop.induct) simp_all

lemma nonNilContextFunc_loop_filter:
  "nonNilContextFunc_loop vs squash = squash @ filter (\<lambda>v. v \<noteq> None) vs"
  by (induction vs squash rule: nonNilContextFunc_loop.induct) simp_all

lemma nonNilValidators_loop_filter:
  "nonNilValidators_loop vs squash = squash @ filter (\<lambda>v. v \<noteq> NilValidator) vs"
  by (induction vs squash rule: nonNilValidators_loop.induct) simp_all

lemma nonNilContextValidator_loop_filter:
  "nonNilContextValidator_loop vs squash = squash @ filter (\<lambda>v. v \<noteq> NilContextValidator) vs"
  by (induction vs squash rule: nonNilContextValidator_loop.induct) simp_all

lemma nonNilFunc_filter: "nonNilFunc vs = filter (\<lambda>v. v \<noteq> None) vs"
  by (simp add: nonNilFunc_def nonNilFunc_loop_filter)

lemma nonNilContextFunc_filter: "nonNilContextFunc vs = filter (\<lambda>v. v \<noteq> None) vs"
  by (simp add: nonNilContextFunc_def nonNilContextFunc_loop_filter)

lemma nonNilValidators_filter:
  "nonNilValidators vs = filter (\<lambda>v. v \<noteq> NilValidator) vs"
  by (simp add: nonNilValidators_def nonNilValidators_loop_filter)

lemma nonNilContextValidator_filter:
  "nonNilContextValidator vs = filter (\<lambda>v. v \<noteq> NilContextValidator) vs"
  by (simp add: nonNilContextValidator_def nonNilContextValidator_loop_filter)

lemma New_loop_map: "New_loop fs mv = mv @ map Func fs"
  by (induction fs mv rule: New_loop.induct) simp_all

lemma NewContext_loop_map: "NewContext_loop fs mv = mv @ map ContextFunc fs"
  by (induction fs mv rule: NewContext_loop.induct) simp_all

lemma Join_loop_concat: "Join_loop vs mv = mv @ concat (map spliced vs)"
  by (induction vs mv rule: Join_loop.induct) simp_all

lemma JoinContext_loop_concat: "JoinContext_loop vs mv = mv @ concat (map ctx_spliced vs)"
  by (induction vs mv rule: JoinContext_loop.induct) simp_all

lemma nonNilErrors_append: "nonNilErrors (xs @ ys) = nonNilErrors xs @ nonNilErrors ys"
  by (induction xs rule: nonNilErrors.induct) simp_all

lemma nonNilErrors_all_nil: "\<forall>r \<in> set rs. r = None \<Longrightarrow> nonNilErrors rs = []"
  by (induction rs rule: nonNilErrors.induct) simp_all

text \<open>The shape laws of the two joining factories, over the survivors.\<close>

lemma Join_shape:
  "Join vs = (case filter (\<lambda>v. v \<noteq> NilValidator) vs of
                [] \<Rightarrow> noOpValidator
              | [v] \<Rightarrow> v
              | ks \<Rightarrow> multiValidatorPtr (concat (map spliced ks)))"
  by (simp add: Join_def nonNilValidators_filter Join_loop_concat NoOp_def Let_def
        split: list.splits)

lemma JoinContext_shape:
  "JoinContext vs = (case filter (\<lambda>v. v \<noteq> NilContextValidator) vs of
                [] \<Rightarrow> noOpContextValidator
              | [v] \<Rightarrow> v
              | ks \<Rightarrow> multiContextValidator (concat (map ctx_spliced ks)))"
  by (simp add: JoinContext_def nonNilContextValidator_filter JoinContext_loop_concat
        NoOpContext_def Let_def split: list.splits)

lemma New_shape:
  "New fs = (case filter (\<lambda>f. f \<noteq> None) fs of
                [] \<Rightarrow> noOpValidator
              | [f] \<Rightarrow> Func f
              | ks \<Rightarrow> multiValidator (map Func ks))"
  by (simp add: New_def nonNilFunc_filter New_loop_map NoOp_def Let_def split: list.splits)

lemma NewContext_shape:
  "NewContext fs = (case filter (\<lambda>f. f \<noteq> None) fs of
                [] \<Rightarrow> noOpContextValidator
              | [f] \<Rightarrow> ContextFunc f
              | ks \<Rightarrow> multiContextValidator (map ContextFunc ks))"
  by (simp add: NewContext_def nonNilContextFunc_filter NewContext_loop_map NoOpContext_def
        Let_def split: list.splits)

section \<open>Running an aggregate\<close>

lemma callable_returns:
  "callable (v :: ('t, 's, 'e) Validator) \<Longrightarrow> \<exists>r s'. Validate v val s = Inr (r, s')"
  "\<forall>m \<in> set (vs :: ('t, 's, 'e) Validator list). callable m \<Longrightarrow>
     \<exists>es s'. multiValidator_loop vs val errs s = Inr (es, s')"
proof (induction v val s and vs val errs s rule: Validate_multiValidator_loop.induct)
  case (9 v vs val errs s)
  then show ?case by (fastforce split: sum.splits)
qed (auto split: sum.splits prod.splits intro: prod.exhaust)

lemma ctx_callable_returns:
  "ctx_callable (v :: ('c, 't, 's, 'e) ContextValidator) \<Longrightarrow>
     \<exists>r s'. ValidateContext v ctx val s = Inr (r, s')"
  "\<forall>m \<in> set (vs :: ('c, 't, 's, 'e) ContextValidator list). ctx_callable m \<Longrightarrow>
     \<exists>es s'. multiContextValidator_loop vs ctx val errs s = Inr (es, s')"
proof (induction v ctx val s and vs ctx val errs s
    rule: ValidateContext_multiContextValidator_loop.induct)
  case (8 v vs ctx val errs s)
  then show ?case by (fastforce split: sum.splits)
qed (auto split: sum.splits prod.splits intro: prod.exhaust)

lemma loop_of_invocations:
  "invoked_in_order vs val ss rs \<Longrightarrow>
   multiValidator_loop vs val errs (ss ! 0)
     = Inr (errs @ filter (\<lambda>r. r \<noteq> None) rs, ss ! length vs)"
proof (induction vs arbitrary: ss rs errs)
  case Nil
  then show ?case by (simp add: invoked_in_order_def)
next
  case (Cons v vs)
  from Cons.prems obtain s0 ss' r rs' where ss: "ss = s0 # ss'" and rs: "rs = r # rs'"
    by (cases ss; cases rs) (auto simp: invoked_in_order_def)
  from Cons.prems have hd: "Validate v val s0 = Inr (r, ss' ! 0)"
    unfolding invoked_in_order_def ss rs by auto
  from Cons.prems have tl: "invoked_in_order vs val ss' rs'"
    unfolding invoked_in_order_def ss rs by auto
  show ?case using Cons.IH[OF tl] hd by (simp add: ss rs)
qed

lemma ctx_loop_of_invocations:
  "ctx_invoked_in_order vs ctx val ss rs \<Longrightarrow>
   multiContextValidator_loop vs ctx val errs (ss ! 0)
     = Inr (errs @ filter (\<lambda>r. r \<noteq> None) rs, ss ! length vs)"
proof (induction vs arbitrary: ss rs errs)
  case Nil
  then show ?case by (simp add: ctx_invoked_in_order_def)
next
  case (Cons v vs)
  from Cons.prems obtain s0 ss' r rs' where ss: "ss = s0 # ss'" and rs: "rs = r # rs'"
    by (cases ss; cases rs) (auto simp: ctx_invoked_in_order_def)
  from Cons.prems have hd: "ValidateContext v ctx val s0 = Inr (r, ss' ! 0)"
    unfolding ctx_invoked_in_order_def ss rs by auto
  from Cons.prems have tl: "ctx_invoked_in_order vs ctx val ss' rs'"
    unfolding ctx_invoked_in_order_def ss rs by auto
  show ?case using Cons.IH[OF tl] hd by (simp add: ss rs)
qed

lemma invocations_exist:
  "\<forall>m \<in> set vs. callable m \<Longrightarrow> \<exists>ss rs. invoked_in_order vs val ss rs \<and> ss ! 0 = s"
proof (induction vs arbitrary: s)
  case Nil
  then show ?case by (auto simp: invoked_in_order_def intro: exI[of _ "[s]"])
next
  case (Cons v vs)
  then obtain r s1 where v: "Validate v val s = Inr (r, s1)"
    using callable_returns(1)[of v val s] by auto
  from Cons obtain ss rs where t: "invoked_in_order vs val ss rs" "ss ! 0 = s1"
    by (metis list.set_intros(2))
  have "invoked_in_order (v # vs) val (s # ss) (r # rs)"
    using t v unfolding invoked_in_order_def by (auto simp: nth_Cons split: nat.splits)
  then show ?case by (intro exI[of _ "s # ss"] exI[of _ "r # rs"]) simp
qed

lemma ctx_invocations_exist:
  "\<forall>m \<in> set vs. ctx_callable m \<Longrightarrow>
     \<exists>ss rs. ctx_invoked_in_order vs ctx val ss rs \<and> ss ! 0 = s"
proof (induction vs arbitrary: s)
  case Nil
  then show ?case by (auto simp: ctx_invoked_in_order_def intro: exI[of _ "[s]"])
next
  case (Cons v vs)
  then obtain r s1 where v: "ValidateContext v ctx val s = Inr (r, s1)"
    using ctx_callable_returns(1)[of v ctx val s] by auto
  from Cons obtain ss rs where t: "ctx_invoked_in_order vs ctx val ss rs" "ss ! 0 = s1"
    by (metis list.set_intros(2))
  have "ctx_invoked_in_order (v # vs) ctx val (s # ss) (r # rs)"
    using t v unfolding ctx_invoked_in_order_def by (auto simp: nth_Cons split: nat.splits)
  then show ?case by (intro exI[of _ "s # ss"] exI[of _ "r # rs"]) simp
qed

lemma errors_Join_single:
  "errors_Join [Some e] = Some (if unwrapsMany e then e else joinError [e])"
  by (simp add: errors_Join_def)

lemma errors_Join_empty: "errors_Join [] = None"
  by (simp add: errors_Join_def)

lemma filter_all_nil: "\<forall>r \<in> set rs. r = None \<Longrightarrow> filter (\<lambda>r. r \<noteq> None) rs = []"
  by (induction rs) simp_all


section \<open>Size and flatness of aggregates\<close>

lemma spliced_width:
  "\<forall>k \<in> set ks. \<forall>ms. members_of k = Some ms \<longrightarrow> 2 \<le> length ms \<Longrightarrow>
     length ks \<le> length (concat (map spliced ks))"
proof (induction ks)
  case Nil
  then show ?case by simp
next
  case (Cons k ks)
  have "1 \<le> length (spliced k)" using Cons.prems by (cases k) auto
  then show ?case using Cons by simp
qed

lemma ctx_spliced_width:
  "\<forall>k \<in> set ks. k \<noteq> NilContextValidator \<and> (\<forall>ms. ctx_members_of k = Some ms \<longrightarrow> 2 \<le> length ms)
     \<Longrightarrow> length ks \<le> length (concat (map ctx_spliced ks))"
proof (induction ks)
  case Nil
  then show ?case by simp
next
  case (Cons k ks)
  have "1 \<le> length (ctx_spliced k)" using Cons.prems by (cases k) auto
  then show ?case using Cons by simp
qed

lemma constructible_size:
  "constructible v \<Longrightarrow> members_of v = Some ms \<Longrightarrow> 2 \<le> length ms"
proof (induction v arbitrary: ms rule: constructible.induct)
  case (c_new fs)
  then show ?case by (auto simp: New_shape split: list.splits)
next
  case (c_join vs)
  let ?ks = "filter (\<lambda>w. w \<noteq> NilValidator) vs"
  have ih: "\<forall>k \<in> set ?ks. \<forall>ms. members_of k = Some ms \<longrightarrow> 2 \<le> length ms"
    using c_join.IH by auto
  show ?case
  proof (cases ?ks)
    case Nil
    then show ?thesis using c_join.prems by (simp add: Join_shape)
  next
    case (Cons k ks')
    note outer = Cons
    show ?thesis
    proof (cases ks')
      case Nil
      then have "Join vs = k" "k \<in> set ?ks" using outer by (simp_all add: Join_shape)
      then show ?thesis using ih c_join.prems by blast
    next
      case (Cons k' ks'')
      then have ms: "ms = concat (map spliced ?ks)"
        using outer c_join.prems by (simp add: Join_shape)
      have "2 \<le> length ?ks" using outer Cons by simp
      also have "\<dots> \<le> length (concat (map spliced ?ks))" by (rule spliced_width[OF ih])
      finally show ?thesis by (simp only: ms)
    qed
  qed
qed (simp_all add: NoOp_def)

lemma ctx_constructible_size:
  "ctx_constructible v \<Longrightarrow> ctx_members_of v = Some ms \<Longrightarrow> 2 \<le> length ms"
proof (induction v arbitrary: ms rule: ctx_constructible.induct)
  case (cc_new fs)
  then show ?case by (auto simp: NewContext_shape split: list.splits)
next
  case (cc_join vs)
  let ?ks = "filter (\<lambda>w. w \<noteq> NilContextValidator) vs"
  have ih: "\<forall>k \<in> set ?ks. k \<noteq> NilContextValidator
              \<and> (\<forall>ms. ctx_members_of k = Some ms \<longrightarrow> 2 \<le> length ms)"
    using cc_join.IH by auto
  show ?case
  proof (cases ?ks)
    case Nil
    then show ?thesis using cc_join.prems by (simp add: JoinContext_shape)
  next
    case (Cons k ks')
    note outer = Cons
    show ?thesis
    proof (cases ks')
      case Nil
      then have "JoinContext vs = k" "k \<in> set ?ks" using outer by (simp_all add: JoinContext_shape)
      then show ?thesis using ih cc_join.prems by blast
    next
      case (Cons k' ks'')
      then have ms: "ms = concat (map ctx_spliced ?ks)"
        using outer cc_join.prems by (simp add: JoinContext_shape)
      have "2 \<le> length ?ks" using outer Cons by simp
      also have "\<dots> \<le> length (concat (map ctx_spliced ?ks))"
        by (rule ctx_spliced_width[OF ih])
      finally show ?thesis by (simp only: ms)
    qed
  qed
qed (simp_all add: NoOpContext_def)

lemma ctx_constructible_flat:
  "ctx_constructible v \<Longrightarrow> ctx_members_of v = Some ms \<Longrightarrow>
     \<forall>m \<in> set ms. m \<noteq> NilContextValidator \<and> ctx_members_of m = None"
proof (induction v arbitrary: ms rule: ctx_constructible.induct)
  case (cc_new fs)
  then show ?case by (auto simp: NewContext_shape split: list.splits)
next
  case (cc_join vs)
  let ?ks = "filter (\<lambda>w. w \<noteq> NilContextValidator) vs"
  have ih: "\<forall>k \<in> set ?ks. k \<noteq> NilContextValidator
              \<and> (\<forall>ms. ctx_members_of k = Some ms \<longrightarrow>
                    (\<forall>m \<in> set ms. m \<noteq> NilContextValidator \<and> ctx_members_of m = None))"
    using cc_join.IH by auto
  have piece: "\<forall>m \<in> set (ctx_spliced k). m \<noteq> NilContextValidator \<and> ctx_members_of m = None"
    if "k \<in> set ?ks" for k
    using ih that by (cases k; fastforce)
  show ?case
  proof (cases ?ks)
    case Nil
    then show ?thesis using cc_join.prems by (simp add: JoinContext_shape)
  next
    case (Cons k ks')
    note outer = Cons
    show ?thesis
    proof (cases ks')
      case Nil
      then have "JoinContext vs = k" "k \<in> set ?ks" using outer by (simp_all add: JoinContext_shape)
      then show ?thesis using ih cc_join.prems by blast
    next
      case (Cons k' ks'')
      then have ms: "ms = concat (map ctx_spliced ?ks)"
        using outer cc_join.prems by (simp add: JoinContext_shape)
      show ?thesis
      proof
        fix m
        assume "m \<in> set ms"
        then obtain k' where "k' \<in> set ?ks" "m \<in> set (ctx_spliced k')"
          unfolding ms set_concat by auto
        then show "m \<noteq> NilContextValidator \<and> ctx_members_of m = None"
          using piece[of k'] by blast
      qed
    qed
  qed
qed (simp_all add: NoOpContext_def)

lemma JoinContext_nested:
  assumes "\<exists>v \<in> set xs. v \<noteq> NilContextValidator"
  shows "JoinContext (JoinContext xs # ys) = JoinContext (xs @ ys)"
proof -
  let ?kx = "filter (\<lambda>w. w \<noteq> NilContextValidator) xs"
  let ?ky = "filter (\<lambda>w. w \<noteq> NilContextValidator) ys"
  from assms have ne: "?kx \<noteq> []" by (simp add: filter_empty_conv)
  then obtain k kx' where kx: "?kx = k # kx'" by (cases ?kx) auto
  show ?thesis
  proof (cases kx')
    case Nil
    have "k \<in> set ?kx" using kx by simp
    then have "k \<noteq> NilContextValidator" by simp
    moreover have "JoinContext xs = k" using kx Nil by (simp add: JoinContext_shape)
    ultimately show ?thesis using kx Nil by (simp add: JoinContext_shape)
  next
    case (Cons k' kx'')
    have inner: "JoinContext xs = multiContextValidator (concat (map ctx_spliced ?kx))"
      using kx Cons by (simp add: JoinContext_shape)
    show ?thesis
    proof (cases ?ky)
      case Nil
      then show ?thesis using kx Cons by (simp add: JoinContext_shape)
    next
      case (Cons y ky')
      then show ?thesis using kx \<open>kx' = k' # kx''\<close> by (simp add: JoinContext_shape)
    qed
  qed
qed

lemma spliced_callable: "callable k \<Longrightarrow> \<forall>m \<in> set (spliced k). callable m"
  by (cases k) simp_all

lemma ctx_spliced_callable: "ctx_callable k \<Longrightarrow> \<forall>m \<in> set (ctx_spliced k). ctx_callable m"
  by (cases k) simp_all

lemma constructible_callable:
  "constructible v \<Longrightarrow> v \<noteq> NilValidator \<Longrightarrow> callable v"
proof (induction v rule: constructible.induct)
  case (c_new fs)
  then show ?case by (auto simp: New_shape split: list.splits)
next
  case (c_join vs)
  let ?ks = "filter (\<lambda>w. w \<noteq> NilValidator) vs"
  have ih: "\<forall>k \<in> set ?ks. callable k" using c_join.IH by auto
  show ?case
  proof (cases ?ks)
    case Nil
    then show ?thesis by (simp add: Join_shape)
  next
    case (Cons k ks')
    note outer = Cons
    show ?thesis
    proof (cases ks')
      case Nil
      then have "Join vs = k" "k \<in> set ?ks" using outer by (simp_all add: Join_shape)
      then show ?thesis using ih by metis
    next
      case (Cons k' ks'')
      then have j: "Join vs = multiValidatorPtr (concat (map spliced ?ks))"
        using outer by (simp add: Join_shape)
      have "\<forall>m \<in> set (concat (map spliced ?ks)). callable m"
      proof
        fix m
        assume "m \<in> set (concat (map spliced ?ks))"
        then obtain k'' where "k'' \<in> set ?ks" "m \<in> set (spliced k'')"
          unfolding set_concat by auto
        then show "callable m" using ih spliced_callable[of k''] by blast
      qed
      then show ?thesis by (simp only: j callable.simps)
    qed
  qed
qed (simp_all add: NoOp_def)

lemma ctx_constructible_callable:
  "ctx_constructible v \<Longrightarrow> v \<noteq> NilContextValidator \<Longrightarrow> ctx_callable v"
proof (induction v rule: ctx_constructible.induct)
  case (cc_new fs)
  then show ?case by (auto simp: NewContext_shape split: list.splits)
next
  case (cc_join vs)
  let ?ks = "filter (\<lambda>w. w \<noteq> NilContextValidator) vs"
  have ih: "\<forall>k \<in> set ?ks. ctx_callable k" using cc_join.IH by auto
  show ?case
  proof (cases ?ks)
    case Nil
    then show ?thesis by (simp add: JoinContext_shape)
  next
    case (Cons k ks')
    note outer = Cons
    show ?thesis
    proof (cases ks')
      case Nil
      then have "JoinContext vs = k" "k \<in> set ?ks"
        using outer by (simp_all add: JoinContext_shape)
      then show ?thesis using ih by metis
    next
      case (Cons k' ks'')
      then have j: "JoinContext vs = multiContextValidator (concat (map ctx_spliced ?ks))"
        using outer by (simp add: JoinContext_shape)
      have "\<forall>m \<in> set (concat (map ctx_spliced ?ks)). ctx_callable m"
      proof
        fix m
        assume "m \<in> set (concat (map ctx_spliced ?ks))"
        then obtain k'' where "k'' \<in> set ?ks" "m \<in> set (ctx_spliced k'')"
          unfolding set_concat by auto
        then show "ctx_callable m" using ih ctx_spliced_callable[of k''] by blast
      qed
      then show ?thesis by (simp only: j ctx_callable.simps)
    qed
  qed
qed (simp_all add: NoOpContext_def)

text \<open>
  The scenario of three members of which the first and the third fail: all three are
  called (the counter ends at 3) and both failures are reported, in member order. In
  the cancellable flavour the first member fails because the context is cancelled, and
  the others are called all the same.
\<close>

lemma no_short_circuit_example:
  "Validate (multiValidator three_members) 7 0 = Inr (Some (joinError [Failure 1, Failure 3]), 3)"
  by (simp add: three_members_def fail_with_def succeed_def errors_Join_def)

lemma ctx_no_short_circuit_example:
  "ValidateContext (multiContextValidator ctx_three_members) True 7 0
     = Inr (Some (joinError [Failure 99, Failure 3]), 3)"
  by (simp add: ctx_three_members_def ctx_fail_with_def ctx_succeed_def ctx_alive_def
        errors_Join_def)

section \<open>The claims\<close>

text \<open>
  C1 (amended): in the cancellable flavour, when at least one of the inner inputs is
  not nil, \<open>JoinContext (JoinContext xs, ys...)\<close> returns the same checker as
  \<open>JoinContext (xs..., ys...)\<close>, for input lists of any length, so for \<open>a, b, c\<close> and
  \<open>d, e\<close>; and the members of every aggregate a client can build in that flavour are
  neither nil nor aggregates.
\<close>

theorem C1_nested_join:
  fixes xs ys :: "('c, 't, 's, 'e) ContextValidator list"
  shows
  "((\<exists>v \<in> set xs. v \<noteq> NilContextValidator) \<longrightarrow>
      JoinContext (JoinContext xs # ys) = JoinContext (xs @ ys))
   \<and> (ctx_constructible cv \<and> ctx_members_of cv = Some ms \<longrightarrow>
        (\<forall>m \<in> set ms. m \<noteq> NilContextValidator \<and> ctx_members_of m = None))"
  using JoinContext_nested[of xs ys] ctx_constructible_flat[of cv ms] by blast

text \<open>
  C1 as stated fails. When \<open>a\<close>, \<open>b\<close>, \<open>c\<close> are all nil the inner call returns the
  no-op, which the outer call keeps as a member: three members against two. In the
  synchronous flavour \<open>Join\<close> returns a pointer, which the type switch of the outer
  \<open>Join\<close> does not match, so the inner aggregate stays nested: on the input of the test
  case ThreeWithAMultiValidator the result has three members, one of them an
  aggregate, against five.
\<close>

theorem C1_nested_join_counterexample:
  "JoinContext [JoinContext [NilContextValidator, NilContextValidator, NilContextValidator],
                ctx_leaf 4, ctx_leaf 5]
     = multiContextValidator [noOpContextValidator, ctx_leaf 4, ctx_leaf 5]
   \<and> JoinContext [NilContextValidator, NilContextValidator, NilContextValidator,
                  ctx_leaf 4, ctx_leaf 5]
     = multiContextValidator [ctx_leaf 4, ctx_leaf 5]
   \<and> Join [Join [testNoOp, testNoOp, testNoOp], NilValidator, testNoOp, NilValidator, testNoOp,
            NilValidator]
     = multiValidatorPtr [multiValidatorPtr [testNoOp, testNoOp, testNoOp], testNoOp, testNoOp]
   \<and> Join [testNoOp, testNoOp, testNoOp, NilValidator, testNoOp, NilValidator, testNoOp,
            NilValidator]
     = multiValidatorPtr [testNoOp, testNoOp, testNoOp, testNoOp, testNoOp]"
  by (simp add: Join_shape JoinContext_shape ctx_leaf_def testNoOp_def)

theorem C1_nested_join_witness:
  "(\<exists>v \<in> set [ctx_leaf 1, NilContextValidator, ctx_leaf 3]. v \<noteq> NilContextValidator)
   \<and> JoinContext [JoinContext [ctx_leaf 1, NilContextValidator, ctx_leaf 3], ctx_leaf 4, ctx_leaf 5]
       = JoinContext [ctx_leaf 1, NilContextValidator, ctx_leaf 3, ctx_leaf 4, ctx_leaf 5]
   \<and> (ctx_constructible
         (JoinContext [JoinContext [ctx_leaf 1, NilContextValidator, ctx_leaf 3], ctx_leaf 4, ctx_leaf 5])
      \<and> ctx_members_of
         (JoinContext [JoinContext [ctx_leaf 1, NilContextValidator, ctx_leaf 3], ctx_leaf 4, ctx_leaf 5])
        = Some [ctx_leaf 1, ctx_leaf 3, ctx_leaf 4, ctx_leaf 5])
   \<and> list_all (\<lambda>m. m \<noteq> NilContextValidator \<and> ctx_members_of m = None)
         [ctx_leaf 1, ctx_leaf 3, ctx_leaf 4, ctx_leaf 5]"
proof -
  have ne: "\<exists>v \<in> set [ctx_leaf 1, NilContextValidator, ctx_leaf 3]. v \<noteq> NilContextValidator"
    by (simp add: ctx_leaf_def)
  have c: "ctx_constructible
         (JoinContext [JoinContext [ctx_leaf 1, NilContextValidator, ctx_leaf 3], ctx_leaf 4, ctx_leaf 5])"
  proof (rule cc_join)
    have "ctx_constructible (JoinContext [ctx_leaf 1, NilContextValidator, ctx_leaf 3])"
      by (rule cc_join) (simp add: ctx_leaf_def cc_func cc_nil)
    then show "\<forall>v \<in> set [JoinContext [ctx_leaf 1, NilContextValidator, ctx_leaf 3],
                          ctx_leaf 4, ctx_leaf 5]. ctx_constructible v"
      by (simp add: ctx_leaf_def cc_func)
  qed
  have m: "ctx_members_of
         (JoinContext [JoinContext [ctx_leaf 1, NilContextValidator, ctx_leaf 3], ctx_leaf 4, ctx_leaf 5])
        = Some [ctx_leaf 1, ctx_leaf 3, ctx_leaf 4, ctx_leaf 5]"
    by (simp add: JoinContext_shape ctx_leaf_def)
  show ?thesis
    using ne c m
      C1_nested_join[where xs = "[ctx_leaf 1, NilContextValidator, ctx_leaf 3]"
        and ys = "[ctx_leaf 4, ctx_leaf 5]"
        and cv = "JoinContext [JoinContext [ctx_leaf 1, NilContextValidator, ctx_leaf 3],
                               ctx_leaf 4, ctx_leaf 5]"
        and ms = "[ctx_leaf 1, ctx_leaf 3, ctx_leaf 4, ctx_leaf 5]"]
    by simp
qed




text \<open>
  C3: with \<open>k\<close> the number of non-nil functions passed to \<open>New\<close> (to \<open>NewContext\<close>),
  the result is the no-op when \<open>k = 0\<close>, the \<open>Func\<close> of the one surviving function when
  \<open>k = 1\<close>, and when \<open>k \<ge> 2\<close> the struct aggregate whose members are the \<open>Func\<close>s of the
  surviving functions, in their order.
\<close>

theorem C3_new_shape:
  fixes fs :: "('t, 's, 'e) check option list"
    and cfs :: "('c, 't, 's, 'e) ctx_check option list"
  shows
  "(length (filter (\<lambda>f. f \<noteq> None) fs) = 0 \<longrightarrow> New fs = NoOp)
   \<and> (length (filter (\<lambda>f. f \<noteq> None) fs) = 1 \<longrightarrow>
        New fs = Func (filter (\<lambda>f. f \<noteq> None) fs ! 0))
   \<and> (2 \<le> length (filter (\<lambda>f. f \<noteq> None) fs) \<longrightarrow>
        New fs = multiValidator (map Func (filter (\<lambda>f. f \<noteq> None) fs)))
   \<and> (length (filter (\<lambda>f. f \<noteq> None) cfs) = 0 \<longrightarrow> NewContext cfs = NoOpContext)
   \<and> (length (filter (\<lambda>f. f \<noteq> None) cfs) = 1 \<longrightarrow>
        NewContext cfs = ContextFunc (filter (\<lambda>f. f \<noteq> None) cfs ! 0))
   \<and> (2 \<le> length (filter (\<lambda>f. f \<noteq> None) cfs) \<longrightarrow>
        NewContext cfs = multiContextValidator (map ContextFunc (filter (\<lambda>f. f \<noteq> None) cfs)))"
  by (simp add: New_def NewContext_def nonNilFunc_filter nonNilContextFunc_filter
        New_loop_map NewContext_loop_map Let_def)

theorem C3_new_shape_witness:
  "length (filter (\<lambda>f. f \<noteq> None) [None, None :: (nat, nat, nat) check option]) = 0
   \<and> New [None, None :: (nat, nat, nat) check option] = NoOp
   \<and> length (filter (\<lambda>f. f \<noteq> None) [None, None, Some succeed, None]) = 1
   \<and> New [None, None, Some succeed, None] = Func (Some succeed)
   \<and> 2 \<le> length (filter (\<lambda>f. f \<noteq> None) [Some succeed, None, Some positive, None, Some (fail_with 1)])
   \<and> New [Some succeed, None, Some positive, None, Some (fail_with 1)]
       = multiValidator [Func (Some succeed), Func (Some positive), Func (Some (fail_with 1))]
   \<and> length (filter (\<lambda>f. f \<noteq> None) [None :: (bool, nat, nat, nat) ctx_check option]) = 0
   \<and> NewContext [None :: (bool, nat, nat, nat) ctx_check option] = NoOpContext
   \<and> length (filter (\<lambda>f. f \<noteq> None) [None, Some ctx_alive]) = 1
   \<and> NewContext [None, Some ctx_alive] = ContextFunc (Some ctx_alive)
   \<and> 2 \<le> length (filter (\<lambda>f. f \<noteq> None) [Some ctx_alive, None, Some ctx_succeed])
   \<and> NewContext [Some ctx_alive, None, Some ctx_succeed]
       = multiContextValidator [ContextFunc (Some ctx_alive), ContextFunc (Some ctx_succeed)]"
  using C3_new_shape[where fs = "[None, None :: (nat, nat, nat) check option]"
      and cfs = "[None :: (bool, nat, nat, nat) ctx_check option]"]
    C3_new_shape[where fs = "[None, None, Some succeed, None]"
      and cfs = "[None, Some ctx_alive]"]
    C3_new_shape[where fs = "[Some succeed, None, Some positive, None, Some (fail_with 1)]"
      and cfs = "[Some ctx_alive, None, Some ctx_succeed]"]
  by simp

text \<open>
  C4: for an aggregate whose members can be called, \<open>Validate\<close> invokes every member
  once, in stored order, on the same input (and context), each member starting in the
  state the one before it left, whatever the earlier members returned; the errors the
  loop collects are the non-nil results of the members in member order, and the result
  is \<open>errors.Join\<close> of them, in the state the last member left.
\<close>

theorem C4_aggregate_invokes_all:
  fixes members :: "('t, 's, 'e) Validator list"
    and cmembers :: "('c, 't, 's, 'e) ContextValidator list"
  shows
  "((\<forall>m \<in> set members. callable m) \<longrightarrow>
      (\<exists>ss rs. ss ! 0 = s \<and> invoked_in_order members val ss rs
         \<and> multiValidator_loop members val [] s
             = Inr (filter (\<lambda>r. r \<noteq> None) rs, ss ! length members)
         \<and> Validate (multiValidator members) val s
             = Inr (errors_Join (filter (\<lambda>r. r \<noteq> None) rs), ss ! length members)
         \<and> Validate (multiValidatorPtr members) val s
             = Inr (errors_Join (filter (\<lambda>r. r \<noteq> None) rs), ss ! length members)))
   \<and> ((\<forall>m \<in> set cmembers. ctx_callable m) \<longrightarrow>
      (\<exists>ss rs. ss ! 0 = s \<and> ctx_invoked_in_order cmembers ctx val ss rs
         \<and> multiContextValidator_loop cmembers ctx val [] s
             = Inr (filter (\<lambda>r. r \<noteq> None) rs, ss ! length cmembers)
         \<and> ValidateContext (multiContextValidator cmembers) ctx val s
             = Inr (errors_Join (filter (\<lambda>r. r \<noteq> None) rs), ss ! length cmembers)))"
proof (intro conjI impI)
  assume "\<forall>m \<in> set members. callable m"
  then obtain ss rs where run: "invoked_in_order members val ss rs" and s: "ss ! 0 = s"
    using invocations_exist[of members val s] by auto
  have "multiValidator_loop members val [] s
          = Inr (filter (\<lambda>r. r \<noteq> None) rs, ss ! length members)"
    using loop_of_invocations[OF run, of "[]"] s by simp
  then show "\<exists>ss rs. ss ! 0 = s \<and> invoked_in_order members val ss rs
         \<and> multiValidator_loop members val [] s
             = Inr (filter (\<lambda>r. r \<noteq> None) rs, ss ! length members)
         \<and> Validate (multiValidator members) val s
             = Inr (errors_Join (filter (\<lambda>r. r \<noteq> None) rs), ss ! length members)
         \<and> Validate (multiValidatorPtr members) val s
             = Inr (errors_Join (filter (\<lambda>r. r \<noteq> None) rs), ss ! length members)"
    using run s by (intro exI[of _ ss] exI[of _ rs]) simp
next
  assume "\<forall>m \<in> set cmembers. ctx_callable m"
  then obtain ss rs where run: "ctx_invoked_in_order cmembers ctx val ss rs" and s: "ss ! 0 = s"
    using ctx_invocations_exist[of cmembers ctx val s] by auto
  have "multiContextValidator_loop cmembers ctx val [] s
          = Inr (filter (\<lambda>r. r \<noteq> None) rs, ss ! length cmembers)"
    using ctx_loop_of_invocations[OF run, of "[]"] s by simp
  then show "\<exists>ss rs. ss ! 0 = s \<and> ctx_invoked_in_order cmembers ctx val ss rs
         \<and> multiContextValidator_loop cmembers ctx val [] s
             = Inr (filter (\<lambda>r. r \<noteq> None) rs, ss ! length cmembers)
         \<and> ValidateContext (multiContextValidator cmembers) ctx val s
             = Inr (errors_Join (filter (\<lambda>r. r \<noteq> None) rs), ss ! length cmembers)"
    using run s by (intro exI[of _ ss] exI[of _ rs]) simp
qed

theorem C4_aggregate_invokes_all_witness:
  "list_all callable three_members
   \<and> (\<exists>ss rs. ss ! 0 = 0 \<and> invoked_in_order three_members 7 ss rs
         \<and> multiValidator_loop three_members 7 [] 0
             = Inr (filter (\<lambda>r. r \<noteq> None) rs, ss ! length three_members)
         \<and> Validate (multiValidator three_members) 7 0
             = Inr (errors_Join (filter (\<lambda>r. r \<noteq> None) rs), ss ! length three_members)
         \<and> Validate (multiValidatorPtr three_members) 7 0
             = Inr (errors_Join (filter (\<lambda>r. r \<noteq> None) rs), ss ! length three_members))
   \<and> list_all ctx_callable ctx_three_members
   \<and> (\<exists>ss rs. ss ! 0 = 0 \<and> ctx_invoked_in_order ctx_three_members True 7 ss rs
         \<and> multiContextValidator_loop ctx_three_members True 7 [] 0
             = Inr (filter (\<lambda>r. r \<noteq> None) rs, ss ! length ctx_three_members)
         \<and> ValidateContext (multiContextValidator ctx_three_members) True 7 0
             = Inr (errors_Join (filter (\<lambda>r. r \<noteq> None) rs), ss ! length ctx_three_members))"
proof -
  have a: "\<forall>m \<in> set three_members. callable m"
    by (simp add: three_members_def)
  have c: "\<forall>m \<in> set ctx_three_members. ctx_callable m"
    by (simp add: ctx_three_members_def)
  show ?thesis
    using a c
      C4_aggregate_invokes_all[where members = three_members and val = 7 and s = 0
        and cmembers = ctx_three_members and ctx = True]
    unfolding list_all_iff by blast
qed

text \<open>
  C5 (amended): when exactly one member of an aggregate returns a failure, the result of
  \<open>Validate\<close> is that failure unchanged only if the failure is itself a multi-error (it
  has the method \<open>Unwrap() []error\<close>, as a \<open>*joinError\<close> has); otherwise it is the
  composite of \<open>errors.Join\<close> that holds this failure, unchanged, as its only constituent.
\<close>

theorem C5_single_failure_outcome:
  fixes members :: "('t, 's, 'e) Validator list"
    and cmembers :: "('c, 't, 's, 'e) ContextValidator list"
  shows
  "(invoked_in_order members val ss rs \<and> filter (\<lambda>r. r \<noteq> None) rs = [Some e] \<longrightarrow>
      Validate (multiValidator members) val (ss ! 0)
        = Inr (Some (if unwrapsMany e then e else joinError [e]), ss ! length members)
      \<and> Validate (multiValidatorPtr members) val (ss ! 0)
        = Inr (Some (if unwrapsMany e then e else joinError [e]), ss ! length members))
   \<and> (ctx_invoked_in_order cmembers ctx val css crs
        \<and> filter (\<lambda>r. r \<noteq> None) crs = [Some ce] \<longrightarrow>
      ValidateContext (multiContextValidator cmembers) ctx val (css ! 0)
        = Inr (Some (if unwrapsMany ce then ce else joinError [ce]), css ! length cmembers))"
  using loop_of_invocations[of members val ss rs "[]"]
    ctx_loop_of_invocations[of cmembers ctx val css crs "[]"]
  by (simp add: errors_Join_single)

text \<open>
  C5 as stated fails: the failure of a caller's check function, which is no multi-error,
  is wrapped by \<open>errors.Join\<close> although it is the only one, so the result is not the
  failure itself.
\<close>

theorem C5_single_failure_counterexample:
  "invoked_in_order one_failing 7 [0, 1, 2] [None, Some (Failure 1)]
   \<and> Validate (multiValidator one_failing) 7 0 = Inr (Some (joinError [Failure 1]), 2)
   \<and> Validate (multiValidator one_failing) 7 0 \<noteq> Inr (Some (Failure 1), 2)"
  by (simp add: one_failing_def invoked_in_order_def less_Suc_eq all_conj_distrib
        fail_with_def succeed_def errors_Join_def numeral_2_eq_2)

theorem C5_single_failure_witness:
  "(invoked_in_order one_failing 7 [0, 1, 2] [None, Some (Failure 1)]
      \<and> filter (\<lambda>r. r \<noteq> None) [None, Some (Failure (1::nat))] = [Some (Failure 1)])
   \<and> Validate (multiValidator one_failing) 7 0 = Inr (Some (joinError [Failure 1]), 2)
   \<and> Validate (multiValidatorPtr one_failing) 7 0 = Inr (Some (joinError [Failure 1]), 2)
   \<and> (ctx_invoked_in_order ctx_one_failing True 7 [0, 1, 2] [Some (Failure 99), None]
      \<and> filter (\<lambda>r. r \<noteq> None) [Some (Failure (99::nat)), None] = [Some (Failure 99)])
   \<and> ValidateContext (multiContextValidator ctx_one_failing) True 7 0
        = Inr (Some (joinError [Failure 99]), 2)
   \<and> (invoked_in_order composite_failing 7 [0, 2, 3]
         [Some (joinError [Failure 1, Failure 2]), None]
      \<and> filter (\<lambda>r. r \<noteq> None) [Some (joinError [Failure (1::nat), Failure 2]), None]
          = [Some (joinError [Failure 1, Failure 2])])
   \<and> Validate (multiValidator composite_failing) 7 0
        = Inr (Some (joinError [Failure 1, Failure 2]), 3)
   \<and> Validate (multiValidatorPtr composite_failing) 7 0
        = Inr (Some (joinError [Failure 1, Failure 2]), 3)
   \<and> (ctx_invoked_in_order ctx_composite_failing False 7 [0, 1, 2]
         [Some (joinError [Failure 1, Failure 2]), None]
      \<and> filter (\<lambda>r. r \<noteq> None) [Some (joinError [Failure (1::nat), Failure 2]), None]
          = [Some (joinError [Failure 1, Failure 2])])
   \<and> ValidateContext (multiContextValidator ctx_composite_failing) False 7 0
        = Inr (Some (joinError [Failure 1, Failure 2]), 2)"
proof -
  have run: "invoked_in_order one_failing 7 [0, 1, 2] [None, Some (Failure 1)]"
    by (simp add: one_failing_def invoked_in_order_def less_Suc_eq all_conj_distrib
          fail_with_def succeed_def)
  have crun: "ctx_invoked_in_order ctx_one_failing True 7 [0, 1, 2] [Some (Failure 99), None]"
    by (simp add: ctx_one_failing_def ctx_invoked_in_order_def less_Suc_eq all_conj_distrib
          ctx_alive_def ctx_succeed_def)
  have run2: "invoked_in_order composite_failing 7 [0, 2, 3]
                [Some (joinError [Failure 1, Failure 2]), None]"
    by (simp add: composite_failing_def invoked_in_order_def less_Suc_eq all_conj_distrib
          leaf_def testNoOp_def fail_with_def succeed_def errors_Join_def numeral_2_eq_2
          numeral_3_eq_3)
  have crun2: "ctx_invoked_in_order ctx_composite_failing False 7 [0, 1, 2]
                 [Some (joinError [Failure 1, Failure 2]), None]"
    by (simp add: ctx_composite_failing_def ctx_invoked_in_order_def less_Suc_eq
          all_conj_distrib ctx_joined_def ctx_succeed_def)
  have len: "length one_failing = 2" "length ctx_one_failing = 2"
    "length composite_failing = 2" "length ctx_composite_failing = 2"
    by (simp_all add: one_failing_def ctx_one_failing_def composite_failing_def
          ctx_composite_failing_def)
  show ?thesis
    using run crun run2 crun2 len
      C5_single_failure_outcome[where members = one_failing and val = 7
        and ss = "[0, 1, 2]" and rs = "[None, Some (Failure 1)]" and e = "Failure 1"
        and cmembers = ctx_one_failing and ctx = True and css = "[0, 1, 2]"
        and crs = "[Some (Failure 99), None]" and ce = "Failure 99"]
      C5_single_failure_outcome[where members = composite_failing and val = 7
        and ss = "[0, 2, 3]" and rs = "[Some (joinError [Failure 1, Failure 2]), None]"
        and e = "joinError [Failure 1, Failure 2]"
        and cmembers = ctx_composite_failing and ctx = False and css = "[0, 1, 2]"
        and crs = "[Some (joinError [Failure 1, Failure 2]), None]"
        and ce = "joinError [Failure 1, Failure 2]"]
    by simp
qed

text \<open>
  C6: \<open>Validate\<close> on a \<open>Func\<close> (and on a \<open>ContextFunc\<close>) whose function is nil returns
  the nil error and leaves the state as it was; on a non-nil function it returns exactly
  what the function returns for the same input (and context), result and effect.
\<close>

theorem C6_leaf_validate:
  "Validate (Func None) val s = Inr (None, s)
   \<and> Validate (Func (Some fn)) val s = Inr (fn val s)
   \<and> ValidateContext (ContextFunc None) ctx val s = Inr (None, s)
   \<and> ValidateContext (ContextFunc (Some cfn)) ctx val s = Inr (cfn ctx val s)"
  by simp

text \<open>
  C7: when exactly one checker passed to \<open>Join\<close> (to \<open>JoinContext\<close>) is not nil, the
  factory returns that checker itself.
\<close>

theorem C7_join_single_survivor:
  fixes vs :: "('t, 's, 'e) Validator list"
    and cvs :: "('c, 't, 's, 'e) ContextValidator list"
  shows
  "(filter (\<lambda>w. w \<noteq> NilValidator) vs = [v] \<longrightarrow> Join vs = v)
   \<and> (filter (\<lambda>w. w \<noteq> NilContextValidator) cvs = [cv] \<longrightarrow> JoinContext cvs = cv)"
  by (simp add: Join_shape JoinContext_shape)

theorem C7_join_single_survivor_witness:
  "filter (\<lambda>w. w \<noteq> NilValidator) [NilValidator, NilValidator, Func (Some succeed), NilValidator]
     = [Func (Some succeed)]
   \<and> Join [NilValidator, NilValidator, Func (Some succeed), NilValidator] = Func (Some succeed)
   \<and> filter (\<lambda>w. w \<noteq> NilContextValidator)
        [NilContextValidator, multiContextValidator [ContextImpl ctx_alive, ContextImpl ctx_succeed]]
     = [multiContextValidator [ContextImpl ctx_alive, ContextImpl ctx_succeed]]
   \<and> JoinContext
        [NilContextValidator, multiContextValidator [ContextImpl ctx_alive, ContextImpl ctx_succeed]]
     = multiContextValidator [ContextImpl ctx_alive, ContextImpl ctx_succeed]"
  using C7_join_single_survivor[where
      vs = "[NilValidator, NilValidator, Func (Some succeed), NilValidator]"
      and v = "Func (Some succeed)"
      and cvs = "[NilContextValidator,
                  multiContextValidator [ContextImpl ctx_alive, ContextImpl ctx_succeed]]"
      and cv = "multiContextValidator [ContextImpl ctx_alive, ContextImpl ctx_succeed]"]
  by simp

text \<open>
  C8: every aggregate a client can obtain, from \<open>New\<close>, \<open>Join\<close>, \<open>NewContext\<close> or
  \<open>JoinContext\<close> applied to checkers it can obtain, has at least two members.
\<close>

theorem C8_aggregate_size:
  fixes v :: "('t, 's, 'e) Validator" and cv :: "('c, 't, 's, 'e) ContextValidator"
  shows
  "(constructible v \<and> members_of v = Some ms \<longrightarrow> 2 \<le> length ms)
   \<and> (ctx_constructible cv \<and> ctx_members_of cv = Some cms \<longrightarrow> 2 \<le> length cms)"
  using constructible_size[of v ms] ctx_constructible_size[of cv cms] by blast

theorem C8_aggregate_size_witness:
  "(constructible (Join [New [Some succeed, Some (fail_with 1)], NilValidator, leaf 2])
      \<and> members_of (Join [New [Some succeed, Some (fail_with 1)], NilValidator, leaf 2])
          = Some [testNoOp, leaf 1, leaf 2])
   \<and> 2 \<le> length [testNoOp, leaf 1, leaf 2]
   \<and> (ctx_constructible (JoinContext [NewContext [Some ctx_alive, Some ctx_succeed], NoOpContext])
      \<and> ctx_members_of (JoinContext [NewContext [Some ctx_alive, Some ctx_succeed], NoOpContext])
          = Some [ContextFunc (Some ctx_alive), ContextFunc (Some ctx_succeed), NoOpContext])
   \<and> 2 \<le> length [ContextFunc (Some ctx_alive), ContextFunc (Some ctx_succeed),
                    NoOpContext :: (bool, nat, nat, nat) ContextValidator]"
proof -
  have c: "constructible (Join [New [Some succeed, Some (fail_with 1)], NilValidator, leaf 2])"
    by (rule c_join) (simp add: c_new c_nil c_func leaf_def)
  have m: "members_of (Join [New [Some succeed, Some (fail_with 1)], NilValidator, leaf 2])
             = Some [testNoOp, leaf 1, leaf 2]"
    by (simp add: Join_shape New_shape leaf_def testNoOp_def)
  have cc: "ctx_constructible
              (JoinContext [NewContext [Some ctx_alive, Some ctx_succeed], NoOpContext]
                 :: (bool, nat, nat, nat) ContextValidator)"
    by (rule cc_join) (simp add: cc_new cc_noop)
  have cm: "ctx_members_of (JoinContext [NewContext [Some ctx_alive, Some ctx_succeed], NoOpContext])
             = Some [ContextFunc (Some ctx_alive), ContextFunc (Some ctx_succeed), NoOpContext]"
    by (simp add: JoinContext_shape NewContext_shape NoOpContext_def)
  show ?thesis
    using c m cc cm
      C8_aggregate_size[where
        v = "Join [New [Some succeed, Some (fail_with 1)], NilValidator, leaf 2]"
        and ms = "[testNoOp, leaf 1, leaf 2]"
        and cv = "JoinContext [NewContext [Some ctx_alive, Some ctx_succeed], NoOpContext]"
        and cms = "[ContextFunc (Some ctx_alive), ContextFunc (Some ctx_succeed), NoOpContext]"]
    by simp
qed

text \<open>
  C9: \<open>Validate\<close> on the no-op checker returns the nil error for every input (and
  context) and leaves the state as it was; and when no member of an aggregate returns
  a failure, \<open>Validate\<close> on the aggregate returns the nil error.
\<close>

theorem C9_success:
  fixes members :: "('t, 's, 'e) Validator list"
    and cmembers :: "('c, 't, 's, 'e) ContextValidator list"
  shows
  "Validate (NoOp :: ('t, 's, 'e) Validator) val s = Inr (None, s)
   \<and> ValidateContext (NoOpContext :: ('c, 't, 's, 'e) ContextValidator) ctx val s = Inr (None, s)
   \<and> (invoked_in_order members val ss rs \<and> (\<forall>r \<in> set rs. r = None) \<longrightarrow>
        Validate (multiValidator members) val (ss ! 0) = Inr (None, ss ! length members)
        \<and> Validate (multiValidatorPtr members) val (ss ! 0) = Inr (None, ss ! length members))
   \<and> (ctx_invoked_in_order cmembers ctx val css crs \<and> (\<forall>r \<in> set crs. r = None) \<longrightarrow>
        ValidateContext (multiContextValidator cmembers) ctx val (css ! 0)
          = Inr (None, css ! length cmembers))"
  using loop_of_invocations[of members val ss rs "[]"]
    ctx_loop_of_invocations[of cmembers ctx val css crs "[]"]
    filter_all_nil[of rs] filter_all_nil[of crs]
  by (simp add: errors_Join_empty NoOp_def NoOpContext_def)

theorem C9_success_witness:
  "(invoked_in_order none_failing 7 [0, 1, 1, 2] [None, None, None]
      \<and> list_all (\<lambda>r. r = None) [None, None, None :: nat error option])
   \<and> Validate (multiValidator none_failing) 7 0 = Inr (None, 2)
   \<and> Validate (multiValidatorPtr none_failing) 7 0 = Inr (None, 2)
   \<and> (ctx_invoked_in_order ctx_none_failing False 7 [0, 1, 2] [None, None]
      \<and> list_all (\<lambda>r. r = None) [None, None :: nat error option])
   \<and> ValidateContext (multiContextValidator ctx_none_failing) False 7 0 = Inr (None, 2)"
proof -
  have run: "invoked_in_order none_failing 7 [0, 1, 1, 2] [None, None, None]"
    by (simp add: none_failing_def invoked_in_order_def less_Suc_eq all_conj_distrib
          positive_def succeed_def)
  have crun: "ctx_invoked_in_order ctx_none_failing False 7 [0, 1, 2] [None, None]"
    by (simp add: ctx_none_failing_def ctx_invoked_in_order_def less_Suc_eq all_conj_distrib
          ctx_alive_def ctx_succeed_def)
  have len: "length none_failing = 3" "length ctx_none_failing = 2"
    by (simp_all add: none_failing_def ctx_none_failing_def)
  show ?thesis
    using run crun len
      C9_success[where members = none_failing and val = 7 and ss = "[0, 1, 1, 2]"
        and rs = "[None, None, None]" and cmembers = ctx_none_failing and ctx = False
        and css = "[0, 1, 2]" and crs = "[None, None]" and s = 0]
    by simp
qed

text \<open>
  C10: no element of the slice returned by \<open>nonNilContextValidator\<close> is the nil
  interface value, so the nil case of the type switch in the loop of \<open>JoinContext\<close>,
  which runs over that slice, is never taken.
\<close>

theorem C10_nil_case_unreachable:
  "NilContextValidator \<notin> set (nonNilContextValidator validators)"
  by (simp add: nonNilContextValidator_filter)

end
